theory Spec2Isabelle
  imports Complex_Main
begin

section \<open>Note scheduling and judgment engine of the rhythm game\<close>

text \<open>
  The game screen exists in two variants. The full one (\<^verbatim>\<open>unnamed/part_000\<close>) has the
  miss sweep, the accuracy classes, the maximal combo, the miss counter and the game-over
  state; its functions keep their names here. The plain one
  (\<^verbatim>\<open>src/components/GameScreen.tsx\<close>) has only notes, score and combo; its definitions
  carry the suffix \<open>_v0\<close>.

  Conventions of the embedding.
  \<^item> A JavaScript \<^verbatim>\<open>number\<close> that holds a time, a position or a tempo is a \<open>real\<close>
    (exact arithmetic instead of IEEE doubles); a counter or a lane index is an \<open>int\<close>.
  \<^item> The component state (the \<^verbatim>\<open>useState\<close> cells) is one record. A callback reads the
    cells of the render it was created in and queues updates; the model applies the queued
    updates in order and returns the next record. Functional updaters
    (\<^verbatim>\<open>setX(prev => ...)\<close>) therefore chain, while a plain read of a cell inside a
    callback sees the value of the render that created the callback.
  \<^item> The effect of the game loop lists the clock among its dependencies, so the frame
    callback always stems from the latest render and reads the current clock. The effect
    that subscribes the key handlers lists only \<^verbatim>\<open>activeKeys\<close> and \<^verbatim>\<open>isGameOver\<close>: the
    subscribed \<^verbatim>\<open>handleKeyDown\<close> and the \<^verbatim>\<open>hitNote\<close> it calls stem from the render in
    which one of the two last changed (at first from the mounting render, with no notes
    and clock 0). The record therefore carries, next to the cells, the note list and the
    clock that the subscribed handler reads.
  \<^item> \<^verbatim>\<open>Math.random()\<close> is an explicit source \<open>rnd :: nat \<Rightarrow> real\<close> with a cursor that
    counts the draws made so far.
  \<^item> The note identifier \<^verbatim>\<open>`${beat}-${i}`\<close> is the pair \<open>(beat, i)\<close>.
  \<^item> Timers that only clear the transient hit effect, audio playback and rendering are
    left out.
\<close>

subsection \<open>Constants and data\<close>

definition LANES :: int where
  "LANES = 4"

definition NOTE_SPEED :: real where
  "NOTE_SPEED = 2"

definition HIT_ZONE_Y :: real where
  "HIT_ZONE_Y = 550"

definition MISS_THRESHOLD :: real where
  "MISS_THRESHOLD = 650"

definition totalBeats :: nat where
  "totalBeats = 60"

datatype difficulty = Easy | Normal | Hard

record song =
  bpm :: real
  difficulty :: difficulty

record Note =
  ident :: "nat \<times> nat"
  lane :: int
  timing :: real
  hit :: bool
  missed :: bool

datatype hit_type = Perfect | Good | Miss

text \<open>What a key handler reads from the render that created it.\<close>

record render =
  seenNotes :: "Note list"
  seenTime :: real

record session =
  notes_cell :: "Note list"
  score :: int
  combo :: int
  maxCombo :: int
  isPaused :: bool
  gameTime :: real
  activeKeys :: "int set"
  missCount :: int
  isGameOver :: bool
  showHitEffect :: "(int \<times> hit_type) option"
  listener :: render

subsection \<open>Chart generation (\<^verbatim>\<open>generateNotes\<close>)\<close>

text \<open>
  The draw that decides how many notes a beat gets. Easy makes no draw. The result is the
  number of notes and the cursor after the draw.
\<close>

definition notesPerBeat :: "difficulty \<Rightarrow> (nat \<Rightarrow> real) \<Rightarrow> nat \<Rightarrow> nat \<times> nat" where
  "notesPerBeat d rnd c =
     (case d of
        Hard \<Rightarrow> (if rnd c > 3 / 10 then 2 else 1, c + 1)
      | Normal \<Rightarrow> (if rnd c > 5 / 10 then 2 else 1, c + 1)
      | Easy \<Rightarrow> (1, c))"

definition newNote :: "real \<Rightarrow> nat \<Rightarrow> nat \<Rightarrow> nat \<Rightarrow> real \<Rightarrow> Note" where
  "newNote beatInterval beat k i r =
     \<lparr> ident = (beat, i),
       lane = \<lfloor>r * real_of_int LANES\<rfloor>,
       timing = real beat * beatInterval + (real i * beatInterval / real k),
       hit = False,
       missed = False \<rparr>"

text \<open>The inner loop \<^verbatim>\<open>for (let i = 0; i < notesPerBeat; i++)\<close>, one lane draw per note.\<close>

function pushNotes ::
  "real \<Rightarrow> nat \<Rightarrow> nat \<Rightarrow> (nat \<Rightarrow> real) \<Rightarrow> nat \<Rightarrow> nat \<Rightarrow> Note list \<Rightarrow> Note list \<times> nat" where
  "pushNotes beatInterval beat k rnd i c notePattern =
     (if i < k
      then pushNotes beatInterval beat k rnd (i + 1) (c + 1)
             (notePattern @ [newNote beatInterval beat k i (rnd c)])
      else (notePattern, c))"
  by pat_completeness auto
termination
  by (relation "measure (\<lambda>(beatInterval, beat, k, rnd, i, c, notePattern). k - i)") auto

text \<open>
  The outer loop \<^verbatim>\<open>for (let beat = 0; beat < totalBeats; beat++)\<close>. The number of beats
  is a parameter here; the source fixes it to \<open>totalBeats\<close>.
\<close>

function beatLoop ::
  "song \<Rightarrow> (nat \<Rightarrow> real) \<Rightarrow> nat \<Rightarrow> nat \<Rightarrow> nat \<Rightarrow> Note list \<Rightarrow> Note list" where
  "beatLoop sg rnd nBeats beat c notePattern =
     (if beat < nBeats
      then (let beatInterval = 60000 / bpm sg;
                (k, c1) = notesPerBeat (difficulty sg) rnd c;
                (notePattern', c2) = pushNotes beatInterval beat k rnd 0 c1 notePattern
            in beatLoop sg rnd nBeats (beat + 1) c2 notePattern')
      else notePattern)"
  by pat_completeness auto
termination
  by (relation "measure (\<lambda>(sg, rnd, nBeats, beat, c, notePattern). nBeats - beat)") auto

definition generateNotes :: "song \<Rightarrow> (nat \<Rightarrow> real) \<Rightarrow> Note list" where
  "generateNotes sg rnd = beatLoop sg rnd totalBeats 0 0 []"

subsection \<open>Frame update and miss sweep (\<^verbatim>\<open>gameLoop\<close>)\<close>

definition noteY :: "real \<Rightarrow> Note \<Rightarrow> real" where
  "noteY gt n = (gt - timing n) * NOTE_SPEED / 16"

text \<open>The test of the sweep: past the miss line and neither hit nor missed yet.\<close>

definition overdue :: "real \<Rightarrow> Note \<Rightarrow> bool" where
  "overdue gt n \<longleftrightarrow> noteY gt n > MISS_THRESHOLD \<and> \<not> hit n \<and> \<not> missed n"

text \<open>
  What the sweep queues for one missed note: the \<^verbatim>\<open>setMissCount\<close> updater, which also
  raises the game-over flag from 10 on, and \<^verbatim>\<open>setCombo(0)\<close>.
\<close>

definition registerMiss :: "session \<Rightarrow> session" where
  "registerMiss s =
     (let newCount = missCount s + 1
      in s\<lparr> missCount := newCount,
            isGameOver := (if newCount \<ge> 10 then True else isGameOver s),
            combo := 0 \<rparr>)"

text \<open>
  The \<^verbatim>\<open>prevNotes.map\<close> of the sweep: the new note list together with the counters after
  all the updates queued on the way.
\<close>

fun checkMissed :: "real \<Rightarrow> Note list \<Rightarrow> session \<Rightarrow> Note list \<times> session" where
  "checkMissed gt [] s = ([], s)"
| "checkMissed gt (n # ns) s =
     (if overdue gt n
      then (let (ns', s') = checkMissed gt ns (registerMiss s)
            in (n\<lparr> missed := True \<rparr> # ns', s'))
      else (let (ns', s') = checkMissed gt ns s
            in (n # ns', s')))"

text \<open>
  One animation frame. The effect that owns the loop does not schedule frames while the
  game is paused or over. The sweep reads \<open>gameTime\<close> of the current render, that is the
  clock before \<open>deltaTime\<close> is added.
\<close>

definition gameLoop :: "real \<Rightarrow> session \<Rightarrow> session" where
  "gameLoop deltaTime s =
     (if isPaused s \<or> isGameOver s then s
      else (let (ns', s') = checkMissed (gameTime s) (notes_cell s) s
            in s'\<lparr> notes_cell := ns', gameTime := gameTime s + deltaTime \<rparr>))"

subsection \<open>Lane press (\<^verbatim>\<open>hitNote\<close>)\<close>

definition distance :: "real \<Rightarrow> Note \<Rightarrow> real" where
  "distance gt n = \<bar>noteY gt n - HIT_ZONE_Y\<bar>"

text \<open>
  The \<^verbatim>\<open>forEach\<close> that looks for the closest note. The pair of \<^verbatim>\<open>closestNote\<close> and
  \<^verbatim>\<open>closestDistance\<close> is an option: \<open>None\<close> is \<^verbatim>\<open>null\<close> with distance
  \<^verbatim>\<open>Infinity\<close>, below which every distance lies.
\<close>

fun findClosest :: "real \<Rightarrow> Note list \<Rightarrow> (Note \<times> real) option \<Rightarrow> (Note \<times> real) option" where
  "findClosest gt [] closest = closest"
| "findClosest gt (n # ns) closest =
     (if (case closest of None \<Rightarrow> True | Some (_, closestDistance) \<Rightarrow> distance gt n < closestDistance)
         \<and> distance gt n < 100
      then findClosest gt ns (Some (n, distance gt n))
      else findClosest gt ns closest)"

text \<open>
  \<open>hitNote r s laneNo\<close> is the \<^verbatim>\<open>hitNote\<close> of render \<open>r\<close>, called when the cells are \<open>s\<close>:
  the candidates and the clock of the search are those of \<open>r\<close>, the updaters work on
  the cells of \<open>s\<close>.
\<close>

definition currentNotes :: "render \<Rightarrow> int \<Rightarrow> Note list" where
  "currentNotes r laneNo = filter (\<lambda>n. lane n = laneNo \<and> \<not> hit n \<and> \<not> missed n) (seenNotes r)"

definition markHit :: "nat \<times> nat \<Rightarrow> Note list \<Rightarrow> Note list" where
  "markHit i ns = map (\<lambda>n. if ident n = i then n\<lparr> hit := True \<rparr> else n) ns"

definition hitNote :: "render \<Rightarrow> session \<Rightarrow> int \<Rightarrow> session" where
  "hitNote r s laneNo =
     (case findClosest (seenTime r) (currentNotes r laneNo) None of
        Some (closestNote, closestDistance) \<Rightarrow>
          (let points = (if closestDistance < 30 then 300 else 100);
               hitType = (if closestDistance < 30 then Perfect else Good);
               newCombo = combo s + 1
           in s\<lparr> notes_cell := markHit (ident closestNote) (notes_cell s),
                 score := score s + points,
                 combo := newCombo,
                 maxCombo := max (maxCombo s) newCombo,
                 missCount := 0,
                 showHitEffect := Some (laneNo, hitType) \<rparr>)
      | None \<Rightarrow> s\<lparr> showHitEffect := Some (laneNo, Miss) \<rparr>)"

subsection \<open>Keyboard, pause and restart\<close>

text \<open>
  The key map, applied to \<^verbatim>\<open>e.key.toLowerCase()\<close>. The subscribed \<open>handleKeyDown\<close> calls
  the \<open>hitNote\<close> of its own render, \<open>listener s\<close>; the cells \<^verbatim>\<open>activeKeys\<close> and
  \<^verbatim>\<open>isGameOver\<close> that it reads are dependencies of its effect and hence current.
\<close>

definition keyMap :: "string \<Rightarrow> int option" where
  "keyMap k =
     (if k = ''d'' then Some 0
      else if k = ''f'' then Some 1
      else if k = ''j'' then Some 2
      else if k = ''k'' then Some 3
      else None)"

definition handleKeyDown :: "session \<Rightarrow> string \<Rightarrow> session" where
  "handleKeyDown s k =
     (if isGameOver s then s
      else (let s1 = (case keyMap k of
                        Some laneNo \<Rightarrow>
                          if laneNo \<notin> activeKeys s
                          then hitNote (listener s)
                                 (s\<lparr> activeKeys := insert laneNo (activeKeys s) \<rparr>) laneNo
                          else s
                      | None \<Rightarrow> s)
            in if k = '' '' then s1\<lparr> isPaused := \<not> isPaused s1 \<rparr> else s1))"

definition handleKeyUp :: "session \<Rightarrow> string \<Rightarrow> session" where
  "handleKeyUp s k =
     (case keyMap k of
        Some laneNo \<Rightarrow> s\<lparr> activeKeys := activeKeys s - {laneNo} \<rparr>
      | None \<Rightarrow> s)"

definition restartGame :: "song \<Rightarrow> (nat \<Rightarrow> real) \<Rightarrow> session \<Rightarrow> session" where
  "restartGame sg rnd s =
     s\<lparr> score := 0,
        combo := 0,
        maxCombo := 0,
        missCount := 0,
        gameTime := 0,
        isGameOver := False,
        notes_cell := generateNotes sg rnd,
        isPaused := False \<rparr>"

text \<open>
  The state after mounting: the initial cells, with the note list already set by the
  initialising effect. The key handlers were subscribed in the first render, before that.
\<close>

definition initial :: "Note list \<Rightarrow> session" where
  "initial ns =
     \<lparr> notes_cell = ns, score = 0, combo = 0, maxCombo = 0, isPaused = False, gameTime = 0,
       activeKeys = {}, missCount = 0, isGameOver = False, showHitEffect = None,
       listener = \<lparr> seenNotes = [], seenTime = 0 \<rparr> \<rparr>"

text \<open>
  Everything that can happen to a mounted game screen: a frame, a key going down or up,
  the pause button, the resume button of the pause overlay, and a restart.
\<close>

datatype event =
    Frame real
  | KeyDown string
  | KeyUp string
  | PauseButton
  | ResumeButton
  | Restart "nat \<Rightarrow> real"

text \<open>The callback that an event runs, applied to the cells.\<close>

fun dispatch :: "song \<Rightarrow> session \<Rightarrow> event \<Rightarrow> session" where
  "dispatch sg s (Frame deltaTime) = gameLoop deltaTime s"
| "dispatch sg s (KeyDown k) = handleKeyDown s k"
| "dispatch sg s (KeyUp k) = handleKeyUp s k"
| "dispatch sg s PauseButton = s\<lparr> isPaused := \<not> isPaused s \<rparr>"
| "dispatch sg s ResumeButton = s\<lparr> isPaused := False \<rparr>"
| "dispatch sg s (Restart rnd) = restartGame sg rnd s"

text \<open>
  Whether the callback of an event calls \<^verbatim>\<open>setActiveKeys\<close>. Both key handlers pass it a
  newly built set, so that the cell changes whenever it is called.
\<close>

fun setsActiveKeys :: "session \<Rightarrow> event \<Rightarrow> bool" where
  "setsActiveKeys s (KeyDown k) =
     (\<not> isGameOver s \<and> (case keyMap k of Some laneNo \<Rightarrow> laneNo \<notin> activeKeys s | None \<Rightarrow> False))"
| "setsActiveKeys s (KeyUp k) = (keyMap k \<noteq> None)"
| "setsActiveKeys s e = False"

text \<open>Subscribing the key handlers of the current render.\<close>

definition subscribe :: "session \<Rightarrow> session" where
  "subscribe s = s\<lparr> listener := \<lparr> seenNotes = notes_cell s, seenTime = gameTime s \<rparr> \<rparr>"

text \<open>
  The keyboard effect after the render that follows an event: with dependencies
  \<^verbatim>\<open>[activeKeys, isGameOver]\<close> it subscribes the handlers anew only if one of the two
  changed.
\<close>

definition keyboardEffect :: "session \<Rightarrow> event \<Rightarrow> session \<Rightarrow> session" where
  "keyboardEffect s e s' =
     (if setsActiveKeys s e \<or> isGameOver s' \<noteq> isGameOver s then subscribe s' else s')"

definition step :: "song \<Rightarrow> session \<Rightarrow> event \<Rightarrow> session" where
  "step sg s e = keyboardEffect s e (dispatch sg s e)"

fun isRestart :: "event \<Rightarrow> bool" where
  "isRestart (Restart rnd) = True"
| "isRestart e = False"

definition run :: "song \<Rightarrow> session \<Rightarrow> event list \<Rightarrow> session" where
  "run sg s es = foldl (step sg) s es"

text \<open>
  The states of the current session: every state since the last restart (or since
  mounting), the latest one last.
\<close>

fun sessionHistory :: "song \<Rightarrow> session list \<Rightarrow> event list \<Rightarrow> session list" where
  "sessionHistory sg hist [] = hist"
| "sessionHistory sg hist (e # es) =
     (let s' = step sg (last hist) e
      in sessionHistory sg (if isRestart e then [s'] else hist @ [s']) es)"

subsection \<open>The plain variant of the lane press\<close>

record Note_v0 =
  ident_v0 :: "nat \<times> nat"
  lane_v0 :: int
  timing_v0 :: real
  hit_v0 :: bool

record session_v0 =
  notes_v0 :: "Note_v0 list"
  score_v0 :: int
  combo_v0 :: int
  isPaused_v0 :: bool
  gameTime_v0 :: real
  activeKeys_v0 :: "int set"

definition inWindow_v0 :: "real \<Rightarrow> real \<Rightarrow> bool" where
  "inWindow_v0 gt t \<longleftrightarrow> \<bar>(gt - t) + HIT_ZONE_Y / NOTE_SPEED\<bar> < 100"

definition currentNotes_v0 :: "session_v0 \<Rightarrow> int \<Rightarrow> Note_v0 list" where
  "currentNotes_v0 s laneNo =
     filter (\<lambda>n. lane_v0 n = laneNo \<and> \<not> hit_v0 n \<and> inWindow_v0 (gameTime_v0 s) (timing_v0 n))
       (notes_v0 s)"

definition hitNote_v0 :: "session_v0 \<Rightarrow> int \<Rightarrow> session_v0" where
  "hitNote_v0 s laneNo =
     (case currentNotes_v0 s laneNo of
        noteToHit # _ \<Rightarrow>
          s\<lparr> notes_v0 := map (\<lambda>n. if ident_v0 n = ident_v0 noteToHit then n\<lparr> hit_v0 := True \<rparr> else n)
                            (notes_v0 s),
             score_v0 := score_v0 s + 100,
             combo_v0 := combo_v0 s + 1 \<rparr>
      | [] \<Rightarrow> s\<lparr> combo_v0 := 0 \<rparr>)"

text \<open>
  The acceptance test of the full variant as a predicate of clock and scheduled time: the
  condition \<^verbatim>\<open>distance < 100\<close> of \<open>findClosest\<close>.
\<close>

definition inWindow :: "real \<Rightarrow> real \<Rightarrow> bool" where
  "inWindow gt t \<longleftrightarrow> \<bar>(gt - t) * NOTE_SPEED / 16 - HIT_ZONE_Y\<bar> < 100"

subsection \<open>Predicates used in the proofs\<close>

text \<open>
  \<open>firstBest gt xs c d\<close>: \<open>c\<close> occurs in \<open>xs\<close> at distance \<open>d\<close> below 100, every note
  before it is strictly farther from the hit line and no note after it is closer.
\<close>

definition firstBest :: "real \<Rightarrow> Note list \<Rightarrow> Note \<Rightarrow> real \<Rightarrow> bool" where
  "firstBest gt xs c d \<longleftrightarrow>
     (\<exists>pre post. xs = pre @ c # post \<and> d = distance gt c \<and> d < 100
        \<and> (\<forall>n\<in>set pre. d < distance gt n) \<and> (\<forall>n\<in>set post. d \<le> distance gt n))"

text \<open>What the sweep does to a single note.\<close>

definition sweepNote :: "real \<Rightarrow> Note \<Rightarrow> Note" where
  "sweepNote gt n = (if overdue gt n then n\<lparr> missed := True \<rparr> else n)"

text \<open>The notes that the inner loop appends for one beat, starting at cursor \<open>c\<close>.\<close>

definition beatBlock :: "real \<Rightarrow> nat \<Rightarrow> nat \<Rightarrow> (nat \<Rightarrow> real) \<Rightarrow> nat \<Rightarrow> Note list" where
  "beatBlock beatInterval beat k rnd c =
     map (\<lambda>i. newNote beatInterval beat k i (rnd (c + i))) [0..<k]"

text \<open>The number of notes of a chart that belong to beat \<open>b\<close>.\<close>

definition notesInBeat :: "Note list \<Rightarrow> nat \<Rightarrow> nat" where
  "notesInBeat ns b = length (filter (\<lambda>m. fst (ident m) = b) ns)"

text \<open>
  \<open>noteStep a b\<close>: note \<open>b\<close> is note \<open>a\<close> unchanged, or \<open>a\<close> was neither hit nor missed
  and \<open>b\<close> is \<open>a\<close> marked hit or \<open>a\<close> marked missed.
\<close>

definition noteStep :: "Note \<Rightarrow> Note \<Rightarrow> bool" where
  "noteStep a b \<longleftrightarrow>
     b = a \<or> (\<not> hit a \<and> \<not> missed a \<and> (b = a\<lparr> hit := True \<rparr> \<or> b = a\<lparr> missed := True \<rparr>))"

section \<open>Properties\<close>

subsection \<open>The chart generator\<close>

declare pushNotes.simps [simp del]
declare beatLoop.simps [simp del]

lemma pushNotes_from:
  "pushNotes beatInterval beat k rnd i c acc =
     (acc @ map (\<lambda>j. newNote beatInterval beat k j (rnd (c + (j - i)))) [i..<k], c + (k - i))"
proof (induction beatInterval beat k rnd i c acc rule: pushNotes.induct)
  case (1 beatInterval beat k rnd i c acc)
  show ?case
  proof (cases "i < k")
    case True
    have eq: "rnd (c + 1 + (j - (i + 1))) = rnd (c + (j - i))" if "j \<in> set [i + 1..<k]" for j
    proof -
      have "c + 1 + (j - (i + 1)) = c + (j - i)" using that by auto
      then show ?thesis by (simp only:)
    qed
    have same: "map (\<lambda>j. newNote beatInterval beat k j (rnd (c + 1 + (j - (i + 1))))) [i + 1..<k]
              = map (\<lambda>j. newNote beatInterval beat k j (rnd (c + (j - i)))) [i + 1..<k]"
      by (rule map_cong [OF refl]) (simp only: eq)
    have "pushNotes beatInterval beat k rnd i c acc =
            pushNotes beatInterval beat k rnd (i + 1) (c + 1)
              (acc @ [newNote beatInterval beat k i (rnd c)])"
      using True by (subst pushNotes.simps) simp
    also have "\<dots> = ((acc @ [newNote beatInterval beat k i (rnd c)])
                      @ map (\<lambda>j. newNote beatInterval beat k j (rnd (c + (j - i)))) [i + 1..<k],
                    c + 1 + (k - (i + 1)))"
      using "1.IH" [OF True] same by simp
    also have "\<dots> = (acc @ map (\<lambda>j. newNote beatInterval beat k j (rnd (c + (j - i)))) [i..<k],
                    c + (k - i))"
      using True by (simp add: upt_conv_Cons)
    finally show ?thesis .
  next
    case False
    then show ?thesis by (subst pushNotes.simps) simp
  qed
qed

lemma pushNotes_start:
  "pushNotes beatInterval beat k rnd 0 c acc = (acc @ beatBlock beatInterval beat k rnd c, c + k)"
  by (simp add: pushNotes_from beatBlock_def)

lemma notesPerBeat_cases:
  "fst (notesPerBeat d rnd c) = 1 \<or> fst (notesPerBeat d rnd c) = 2"
  by (cases d) (simp_all add: notesPerBeat_def)

lemma beatLoop_unfold:
  "beatLoop sg rnd nBeats beat c acc =
     (if beat < nBeats
      then beatLoop sg rnd nBeats (Suc beat)
             (snd (notesPerBeat (difficulty sg) rnd c) + fst (notesPerBeat (difficulty sg) rnd c))
             (acc @ beatBlock (60000 / bpm sg) beat (fst (notesPerBeat (difficulty sg) rnd c)) rnd
                      (snd (notesPerBeat (difficulty sg) rnd c)))
      else acc)"
  by (subst beatLoop.simps) (simp add: Let_def split_beta pushNotes_start)

text \<open>An invariant of the note pattern that every beat preserves holds for the result.\<close>

lemma beatLoop_rule:
  assumes "I beat acc" and "beat \<le> nBeats"
    and "\<And>b a k c'. beat \<le> b \<Longrightarrow> b < nBeats \<Longrightarrow> I b a \<Longrightarrow> k = 1 \<or> k = 2 \<Longrightarrow>
           I (Suc b) (a @ beatBlock (60000 / bpm sg) b k rnd c')"
  shows "I nBeats (beatLoop sg rnd nBeats beat c acc)"
  using assms
proof (induction "nBeats - beat" arbitrary: beat c acc)
  case 0
  then have "beat = nBeats" by simp
  then show ?case using "0.prems"(1) by (subst beatLoop_unfold) simp
next
  case (Suc m)
  then have lt: "beat < nBeats" by simp
  let ?k = "fst (notesPerBeat (difficulty sg) rnd c)"
  let ?c1 = "snd (notesPerBeat (difficulty sg) rnd c)"
  let ?acc = "acc @ beatBlock (60000 / bpm sg) beat ?k rnd ?c1"
  have inv: "I (Suc beat) ?acc"
    using Suc.prems(3) [OF le_refl lt Suc.prems(1) notesPerBeat_cases] .
  have "I nBeats (beatLoop sg rnd nBeats (Suc beat) (?c1 + ?k) ?acc)"
  proof (rule Suc.hyps(1))
    show "m = nBeats - Suc beat" using Suc.hyps(2) by simp
    show "I (Suc beat) ?acc" by (rule inv)
    show "Suc beat \<le> nBeats" using lt by simp
    show "I (Suc b) (a @ beatBlock (60000 / bpm sg) b k rnd c')"
      if "Suc beat \<le> b" "b < nBeats" "I b a" "k = 1 \<or> k = 2" for b a k c'
      using that by (intro Suc.prems(3)) simp_all
  qed
  then show ?case using lt by (subst beatLoop_unfold) simp
qed

lemma beatBlock_1:
  "beatBlock beatInterval b (Suc 0) rnd c = [newNote beatInterval b (Suc 0) 0 (rnd c)]"
  by (simp add: beatBlock_def)

lemma beatBlock_2:
  "beatBlock beatInterval b 2 rnd c
     = [newNote beatInterval b 2 0 (rnd c), newNote beatInterval b 2 1 (rnd (c + 1))]"
  by (simp add: beatBlock_def numeral_2_eq_2)

lemma newNote_fields:
  "ident (newNote beatInterval b k i r) = (b, i)"
  "lane (newNote beatInterval b k i r) = \<lfloor>r * 4\<rfloor>"
  "timing (newNote beatInterval b k i r) = real b * beatInterval + real i * beatInterval / real k"
  "hit (newNote beatInterval b k i r) = False"
  "missed (newNote beatInterval b k i r) = False"
  by (simp_all add: newNote_def LANES_def)

lemma beatLoop_pending:
  "\<forall>n\<in>set (beatLoop sg rnd nBeats 0 c []). \<not> hit n \<and> \<not> missed n"
  by (rule beatLoop_rule [where I = "\<lambda>b a. \<forall>n\<in>set a. \<not> hit n \<and> \<not> missed n"])
     (auto simp: beatBlock_1 beatBlock_2 newNote_fields)

lemma beatLoop_length: "nBeats \<le> length (beatLoop sg rnd nBeats 0 c [])"
  by (rule beatLoop_rule [where I = "\<lambda>b a. b \<le> length a"])
     (auto simp: beatBlock_1 beatBlock_2)

lemma beatLoop_lanes:
  assumes "\<forall>i. 0 \<le> rnd i \<and> rnd i < 1"
  shows "\<forall>n\<in>set (beatLoop sg rnd nBeats 0 c []). 0 \<le> lane n \<and> lane n < LANES"
proof (rule beatLoop_rule [where I = "\<lambda>b a. \<forall>n\<in>set a. 0 \<le> lane n \<and> lane n < LANES"])
  fix b k c' and a :: "Note list"
  assume a: "\<forall>n\<in>set a. 0 \<le> lane n \<and> lane n < LANES" and k: "k = 1 \<or> k = (2::nat)"
  have r: "0 \<le> \<lfloor>rnd j * 4\<rfloor> \<and> \<lfloor>rnd j * 4\<rfloor> < LANES" for j
    using assms [rule_format, of j] by (simp add: LANES_def floor_less_iff)
  show "\<forall>n\<in>set (a @ beatBlock (60000 / bpm sg) b k rnd c'). 0 \<le> lane n \<and> lane n < LANES"
    using a k r by (auto simp: beatBlock_1 beatBlock_2 newNote_fields)
qed simp_all

lemma beatLoop_distinct:
  "distinct (map ident (beatLoop sg rnd nBeats 0 c []))
   \<and> (\<forall>n\<in>set (beatLoop sg rnd nBeats 0 c []). fst (ident n) < nBeats)"
proof (rule beatLoop_rule
          [where I = "\<lambda>b a. distinct (map ident a) \<and> (\<forall>n\<in>set a. fst (ident n) < b)"])
  fix b k c' and a :: "Note list"
  assume a: "distinct (map ident a) \<and> (\<forall>n\<in>set a. fst (ident n) < b)"
    and k: "k = 1 \<or> k = (2::nat)"
  have fresh: "(b, i) \<notin> ident ` set a" for i
  proof
    assume "(b, i) \<in> ident ` set a"
    then obtain n where "n \<in> set a" and "ident n = (b, i)" by auto
    then show False using a by fastforce
  qed
  have old: "\<forall>n\<in>set a. fst (ident n) < Suc b"
    using a by (simp add: less_Suc_eq)
  show "distinct (map ident (a @ beatBlock (60000 / bpm sg) b k rnd c'))
        \<and> (\<forall>n\<in>set (a @ beatBlock (60000 / bpm sg) b k rnd c'). fst (ident n) < Suc b)"
    using k
  proof
    assume "k = 1"
    then show ?thesis
      using a fresh [of 0] old by (simp add: beatBlock_1 newNote_fields)
  next
    assume "k = 2"
    then show ?thesis
      using a fresh [of 0] fresh [of 1] old by (simp add: beatBlock_2 newNote_fields)
  qed
qed simp_all

lemma beat_bounds:
  fixes x :: real
  assumes "0 < x"
  shows "real b * x \<le> real (Suc b) * x" and "real b * x + x / 2 \<le> real (Suc b) * x"
  using assms by (simp_all add: algebra_simps)

lemma beatLoop_sorted:
  assumes "0 < bpm sg"
  shows "sorted (map timing (beatLoop sg rnd nBeats 0 c []))"
proof -
  let ?bi = "60000 / bpm sg"
  have bi: "0 < ?bi" using assms by simp
  have "sorted (map timing (beatLoop sg rnd nBeats 0 c []))
        \<and> (\<forall>n\<in>set (beatLoop sg rnd nBeats 0 c []). timing n \<le> real nBeats * ?bi)"
  proof (rule beatLoop_rule
          [where I = "\<lambda>b a. sorted (map timing a) \<and> (\<forall>n\<in>set a. timing n \<le> real b * ?bi)"])
    fix b k c' and a :: "Note list"
    assume a: "sorted (map timing a) \<and> (\<forall>n\<in>set a. timing n \<le> real b * ?bi)"
      and k: "k = 1 \<or> k = (2::nat)"
    have up: "real b * ?bi \<le> real (Suc b) * ?bi"
      using bi by (rule beat_bounds)
    have half: "real b * ?bi + ?bi / 2 \<le> real (Suc b) * ?bi"
      using bi by (rule beat_bounds)
    have old: "\<forall>n\<in>set a. timing n \<le> real (Suc b) * ?bi"
      using a up by fastforce
    show "sorted (map timing (a @ beatBlock ?bi b k rnd c'))
          \<and> (\<forall>n\<in>set (a @ beatBlock ?bi b k rnd c'). timing n \<le> real (Suc b) * ?bi)"
      using k
    proof
      assume "k = 1"
      then show ?thesis
        using a up old by (auto simp: beatBlock_1 newNote_fields sorted_append)
    next
      assume "k = 2"
      then show ?thesis
        using a up half old bi
        by (auto simp: beatBlock_2 newNote_fields sorted_append intro: order_trans)
    qed
  qed simp_all
  then show ?thesis by simp
qed

lemma notesInBeat_append: "notesInBeat (a @ b) x = notesInBeat a x + notesInBeat b x"
  by (simp add: notesInBeat_def)

lemma notesInBeat_none: "\<forall>n\<in>set a. fst (ident n) < b \<Longrightarrow> notesInBeat a b = 0"
  by (auto simp: notesInBeat_def filter_empty_conv)

lemma notesInBeat_block_1:
  "notesInBeat (beatBlock beatInterval b (Suc 0) rnd c) x = (if x = b then 1 else 0)"
  by (simp add: notesInBeat_def beatBlock_1 newNote_fields)

lemma notesInBeat_block_2:
  "notesInBeat (beatBlock beatInterval b 2 rnd c) x = (if x = b then 2 else 0)"
  by (simp add: notesInBeat_def beatBlock_2 newNote_fields)

text \<open>
  Every note carries the beat and the index it was made for, the index lies below the
  number of notes of its beat, and its time is given by beat, index and that number.
\<close>

lemma beatLoop_timing:
  "\<forall>n\<in>set (beatLoop sg rnd nBeats 0 c []).
      fst (ident n) < nBeats
      \<and> snd (ident n) < notesInBeat (beatLoop sg rnd nBeats 0 c []) (fst (ident n))
      \<and> timing n = real (fst (ident n)) * (60000 / bpm sg)
           + real (snd (ident n)) * (60000 / bpm sg)
             / real (notesInBeat (beatLoop sg rnd nBeats 0 c []) (fst (ident n)))"
proof (rule beatLoop_rule
    [where I = "\<lambda>b a. \<forall>n\<in>set a. fst (ident n) < b
      \<and> snd (ident n) < notesInBeat a (fst (ident n))
      \<and> timing n = real (fst (ident n)) * (60000 / bpm sg)
           + real (snd (ident n)) * (60000 / bpm sg) / real (notesInBeat a (fst (ident n)))"])
  fix b k c' and a :: "Note list"
  let ?bi = "60000 / bpm sg"
  assume a: "\<forall>n\<in>set a. fst (ident n) < b
      \<and> snd (ident n) < notesInBeat a (fst (ident n))
      \<and> timing n = real (fst (ident n)) * ?bi
           + real (snd (ident n)) * ?bi / real (notesInBeat a (fst (ident n)))"
    and k: "k = 1 \<or> k = (2::nat)"
  let ?a' = "a @ beatBlock ?bi b k rnd c'"
  have zero: "notesInBeat a b = 0"
    using a by (intro notesInBeat_none) simp
  have blk: "notesInBeat (beatBlock ?bi b k rnd c') x = (if x = b then k else 0)" for x
    using k by (auto simp: notesInBeat_block_1 notesInBeat_block_2)
  have cnt_old: "notesInBeat ?a' x = notesInBeat a x" if "x < b" for x
    using that by (simp add: notesInBeat_append blk)
  have cnt_new: "notesInBeat ?a' b = k"
    by (simp add: notesInBeat_append blk zero)
  have old: "fst (ident n) < Suc b
      \<and> snd (ident n) < notesInBeat ?a' (fst (ident n))
      \<and> timing n = real (fst (ident n)) * ?bi
           + real (snd (ident n)) * ?bi / real (notesInBeat ?a' (fst (ident n)))"
    if "n \<in> set a" for n
  proof -
    have lt: "fst (ident n) < b" using a that by simp
    show ?thesis using a that lt by (simp add: cnt_old [OF lt] less_Suc_eq)
  qed
  have new: "fst (ident n) < Suc b
      \<and> snd (ident n) < notesInBeat ?a' (fst (ident n))
      \<and> timing n = real (fst (ident n)) * ?bi
           + real (snd (ident n)) * ?bi / real (notesInBeat ?a' (fst (ident n)))"
    if "n \<in> set (beatBlock ?bi b k rnd c')" for n
  proof -
    have "fst (ident n) = b \<and> snd (ident n) < k
          \<and> timing n = real b * ?bi + real (snd (ident n)) * ?bi / real k"
      using that k by (auto simp: beatBlock_1 beatBlock_2 newNote_fields)
    then show ?thesis by (simp add: cnt_new)
  qed
  show "\<forall>n\<in>set ?a'. fst (ident n) < Suc b
      \<and> snd (ident n) < notesInBeat ?a' (fst (ident n))
      \<and> timing n = real (fst (ident n)) * ?bi
           + real (snd (ident n)) * ?bi / real (notesInBeat ?a' (fst (ident n)))"
    using old new by auto
qed simp_all

text \<open>
  Claim C6. For a positive tempo, a random source with values in \<open>[0, 1)\<close>, every
  difficulty and every number of beats, the generated chart is ordered by scheduled time,
  every lane lies in \<open>[0, LANES)\<close>, there are at least as many notes as beats, no two
  notes share an identifier, and the note with index \<open>i\<close> of beat \<open>b\<close>, a beat that got
  \<open>k\<close> notes, has \<open>i < k\<close> and is scheduled at \<open>b * (60000 / bpm) + i * (60000 / bpm) / k\<close>.
  The source runs the generator with 60 beats.
\<close>

theorem generateNotes_chart:
  assumes "0 < bpm sg" and "\<forall>i. 0 \<le> rnd i \<and> rnd i < 1"
  shows "sorted (map timing (beatLoop sg rnd nBeats 0 0 []))
         \<and> (\<forall>n\<in>set (beatLoop sg rnd nBeats 0 0 []). 0 \<le> lane n \<and> lane n < LANES)
         \<and> nBeats \<le> length (beatLoop sg rnd nBeats 0 0 [])
         \<and> distinct (map ident (beatLoop sg rnd nBeats 0 0 []))
         \<and> (\<forall>n\<in>set (beatLoop sg rnd nBeats 0 0 []).
               fst (ident n) < nBeats
               \<and> snd (ident n) < notesInBeat (beatLoop sg rnd nBeats 0 0 []) (fst (ident n))
               \<and> timing n = real (fst (ident n)) * (60000 / bpm sg)
                    + real (snd (ident n)) * (60000 / bpm sg)
                      / real (notesInBeat (beatLoop sg rnd nBeats 0 0 []) (fst (ident n))))
         \<and> generateNotes sg rnd = beatLoop sg rnd totalBeats 0 0 []"
  using beatLoop_sorted [OF assms(1), of rnd nBeats 0]
    beatLoop_lanes [OF assms(2), of sg nBeats 0]
    beatLoop_length [of nBeats sg rnd 0]
    beatLoop_distinct [of sg rnd nBeats 0]
    beatLoop_timing [of sg rnd nBeats 0]
  by (simp add: generateNotes_def)

theorem generateNotes_chart_witness:
  "0 < bpm \<lparr> bpm = 120, difficulty = Normal \<rparr>
   \<and> (0::real) \<le> 3 / 4 \<and> (3 / 4 ::real) < 1
   \<and> map ident (beatLoop \<lparr> bpm = 120, difficulty = Normal \<rparr> (\<lambda>i. 3 / 4) 2 0 0 [])
        = [(0, 0), (0, 1), (1, 0), (1, 1)]
   \<and> map timing (beatLoop \<lparr> bpm = 120, difficulty = Normal \<rparr> (\<lambda>i. 3 / 4) 2 0 0 [])
        = [0, 250, 500, 750]
   \<and> map lane (beatLoop \<lparr> bpm = 120, difficulty = Normal \<rparr> (\<lambda>i. 3 / 4) 2 0 0 [])
        = [3, 3, 3, 3]
   \<and> sorted (map timing (beatLoop \<lparr> bpm = 120, difficulty = Normal \<rparr> (\<lambda>i. 3 / 4) 2 0 0 []))"
proof -
  have h1: "0 < bpm \<lparr> bpm = 120, difficulty = Normal \<rparr>" by simp
  have h2: "\<forall>i::nat. (0::real) \<le> (\<lambda>i. 3 / 4) i \<and> (\<lambda>i. 3 / 4) i < (1::real)" by simp
  have ev: "beatLoop \<lparr> bpm = 120, difficulty = Normal \<rparr> (\<lambda>i. 3 / 4) 2 0 0 []
     = [newNote 500 0 2 0 (3 / 4), newNote 500 0 2 1 (3 / 4),
        newNote 500 1 2 0 (3 / 4), newNote 500 1 2 1 (3 / 4)]"
    by (simp add: beatLoop_unfold notesPerBeat_def beatBlock_2)
  show ?thesis
    using generateNotes_chart [OF h1 h2, of 2]
    by (simp add: ev newNote_fields)
qed

subsection \<open>Restart\<close>

text \<open>
  Claim C8. From every session state, a restart gives score, combo, maximal combo, miss
  counter and clock 0, a game that is neither paused nor over, and as notes a freshly
  generated chart, all of whose notes are neither hit nor missed.
\<close>

theorem restartGame_resets:
  "score (restartGame sg rnd s) = 0
   \<and> combo (restartGame sg rnd s) = 0
   \<and> maxCombo (restartGame sg rnd s) = 0
   \<and> missCount (restartGame sg rnd s) = 0
   \<and> gameTime (restartGame sg rnd s) = 0
   \<and> \<not> isPaused (restartGame sg rnd s)
   \<and> \<not> isGameOver (restartGame sg rnd s)
   \<and> notes_cell (restartGame sg rnd s) = generateNotes sg rnd
   \<and> (\<forall>n\<in>set (notes_cell (restartGame sg rnd s)). \<not> hit n \<and> \<not> missed n)
   \<and> totalBeats \<le> length (notes_cell (restartGame sg rnd s))"
  using beatLoop_pending [of sg rnd totalBeats 0] beatLoop_length [of totalBeats sg rnd 0]
  by (simp add: restartGame_def generateNotes_def)

theorem restartGame_resets_witness:
  "score (restartGame \<lparr> bpm = 120, difficulty = Easy \<rparr> (\<lambda>i. 0)
            ((initial [])\<lparr> score := 700, missCount := 10, isGameOver := True \<rparr>)) = 0
   \<and> missCount (restartGame \<lparr> bpm = 120, difficulty = Easy \<rparr> (\<lambda>i. 0)
            ((initial [])\<lparr> score := 700, missCount := 10, isGameOver := True \<rparr>)) = 0
   \<and> \<not> isGameOver (restartGame \<lparr> bpm = 120, difficulty = Easy \<rparr> (\<lambda>i. 0)
            ((initial [])\<lparr> score := 700, missCount := 10, isGameOver := True \<rparr>))
   \<and> 60 \<le> length (notes_cell (restartGame \<lparr> bpm = 120, difficulty = Easy \<rparr> (\<lambda>i. 0)
            ((initial [])\<lparr> score := 700, missCount := 10, isGameOver := True \<rparr>)))"
  using restartGame_resets [of "\<lparr> bpm = 120, difficulty = Easy \<rparr>" "\<lambda>i. 0"
      "(initial [])\<lparr> score := 700, missCount := 10, isGameOver := True \<rparr>"]
  unfolding totalBeats_def by blast

subsection \<open>The search for the closest note\<close>

lemma findClosest_None:
  "findClosest gt xs acc = None \<longleftrightarrow> acc = None \<and> (\<forall>n\<in>set xs. \<not> distance gt n < 100)"
  by (induction xs arbitrary: acc) (auto split: option.splits)

lemma firstBest_here:
  "distance gt x < 100 \<Longrightarrow> \<forall>n\<in>set xs. \<not> (distance gt n < distance gt x \<and> distance gt n < 100)
     \<Longrightarrow> firstBest gt (x # xs) x (distance gt x)"
  unfolding firstBest_def
  by (rule exI [of _ "[]"], rule exI [of _ xs]) force

lemma firstBest_later:
  "firstBest gt xs c d \<Longrightarrow> d < distance gt x \<Longrightarrow> firstBest gt (x # xs) c d"
  unfolding firstBest_def
proof (elim exE conjE)
  fix pre post
  assume "xs = pre @ c # post" "d = distance gt c" "d < 100" "d < distance gt x"
    "\<forall>n\<in>set pre. d < distance gt n" "\<forall>n\<in>set post. d \<le> distance gt n"
  then have "x # xs = (x # pre) @ c # post \<and> d = distance gt c \<and> d < 100
        \<and> (\<forall>n\<in>set (x # pre). d < distance gt n) \<and> (\<forall>n\<in>set post. d \<le> distance gt n)"
    by simp
  then show "\<exists>pre post. x # xs = pre @ c # post \<and> d = distance gt c \<and> d < 100
        \<and> (\<forall>n\<in>set pre. d < distance gt n) \<and> (\<forall>n\<in>set post. d \<le> distance gt n)"
    by blast
qed

lemma findClosest_Some:
  "findClosest gt xs acc = Some (c, d) \<Longrightarrow>
     (acc = Some (c, d) \<and> (\<forall>n\<in>set xs. \<not> (distance gt n < d \<and> distance gt n < 100)))
   \<or> (firstBest gt xs c d \<and> (case acc of None \<Rightarrow> True | Some (c0, d0) \<Rightarrow> d < d0))"
proof (induction xs arbitrary: acc)
  case Nil
  then show ?case by simp
next
  case (Cons x xs)
  let ?A = "(case acc of None \<Rightarrow> True | Some (c0, d0) \<Rightarrow> distance gt x < d0) \<and> distance gt x < 100"
  show ?case
  proof (cases ?A)
    case True
    then have run: "findClosest gt xs (Some (x, distance gt x)) = Some (c, d)"
      using Cons.prems by simp
    from Cons.IH [OF run] show ?thesis
    proof
      assume h: "Some (x, distance gt x) = Some (c, d) \<and>
        (\<forall>n\<in>set xs. \<not> (distance gt n < d \<and> distance gt n < 100))"
      then have "firstBest gt (x # xs) c d"
        using True firstBest_here [of gt x xs] by auto
      moreover have "case acc of None \<Rightarrow> True | Some (c0, d0) \<Rightarrow> d < d0"
        using True h by (auto split: option.splits)
      ultimately show ?thesis by blast
    next
      assume h: "firstBest gt xs c d \<and>
        (case Some (x, distance gt x) of None \<Rightarrow> True | Some (c0, d0) \<Rightarrow> d < d0)"
      then have "firstBest gt (x # xs) c d"
        using firstBest_later [of gt xs c d x] by simp
      moreover have "case acc of None \<Rightarrow> True | Some (c0, d0) \<Rightarrow> d < d0"
        using True h by (auto split: option.splits)
      ultimately show ?thesis by blast
    qed
  next
    case False
    then have run: "findClosest gt xs acc = Some (c, d)"
      using Cons.prems by (simp split: if_splits)
    from Cons.IH [OF run] show ?thesis
    proof
      assume h: "acc = Some (c, d) \<and> (\<forall>n\<in>set xs. \<not> (distance gt n < d \<and> distance gt n < 100))"
      then show ?thesis using False by auto
    next
      assume h: "firstBest gt xs c d \<and> (case acc of None \<Rightarrow> True | Some (c0, d0) \<Rightarrow> d < d0)"
      then have "d < 100" by (auto simp: firstBest_def)
      then have "d < distance gt x"
        using False h by (auto split: option.splits)
      then show ?thesis using h firstBest_later [of gt xs c d x] by blast
    qed
  qed
qed

lemma findClosest_start:
  "findClosest gt xs None = Some (c, d) \<Longrightarrow> firstBest gt xs c d"
  using findClosest_Some [of gt xs None c d] by simp

lemma firstBest_mem: "firstBest gt xs c d \<Longrightarrow> c \<in> set xs"
  by (auto simp: firstBest_def)

lemma firstBest_least: "firstBest gt xs c d \<Longrightarrow> n \<in> set xs \<Longrightarrow> d \<le> distance gt n"
  by (fastforce simp: firstBest_def)

lemma firstBest_tie:
  assumes "firstBest gt xs c d" and "sorted (map timing xs)"
    and "n \<in> set xs" and "distance gt n = d"
  shows "timing c \<le> timing n"
proof -
  from assms(1) obtain pre post where
    xs: "xs = pre @ c # post" and pre: "\<forall>m\<in>set pre. d < distance gt m"
    by (auto simp: firstBest_def)
  from pre assms(4) have "n \<notin> set pre" by auto
  with xs assms(3) have "n = c \<or> n \<in> set post" by auto
  moreover have "\<forall>m\<in>set post. timing c \<le> timing m"
    using assms(2) xs by (simp add: sorted_append)
  ultimately show ?thesis by auto
qed

lemma sorted_currentNotes:
  "sorted (map timing (seenNotes r)) \<Longrightarrow> sorted (map timing (currentNotes r laneNo))"
  unfolding currentNotes_def by (rule sorted_filter)

lemma currentNotes_iff:
  "n \<in> set (currentNotes r laneNo) \<longleftrightarrow>
     n \<in> set (seenNotes r) \<and> lane n = laneNo \<and> \<not> hit n \<and> \<not> missed n"
  by (auto simp: currentNotes_def)

subsection \<open>The miss sweep\<close>

lemma registerMiss_fields:
  "notes_cell (registerMiss s) = notes_cell s" "score (registerMiss s) = score s"
  "maxCombo (registerMiss s) = maxCombo s" "isPaused (registerMiss s) = isPaused s"
  "gameTime (registerMiss s) = gameTime s" "activeKeys (registerMiss s) = activeKeys s"
  "showHitEffect (registerMiss s) = showHitEffect s"
  by (simp_all add: registerMiss_def Let_def)

lemma checkMissed_notes: "fst (checkMissed gt ns s) = map (sweepNote gt) ns"
  by (induction ns arbitrary: s) (simp_all add: sweepNote_def split_beta Let_def)

lemma checkMissed_fields:
  "notes_cell (snd (checkMissed gt ns s)) = notes_cell s \<and>
   score (snd (checkMissed gt ns s)) = score s \<and>
   maxCombo (snd (checkMissed gt ns s)) = maxCombo s \<and>
   isPaused (snd (checkMissed gt ns s)) = isPaused s \<and>
   gameTime (snd (checkMissed gt ns s)) = gameTime s \<and>
   activeKeys (snd (checkMissed gt ns s)) = activeKeys s \<and>
   showHitEffect (snd (checkMissed gt ns s)) = showHitEffect s"
  by (induction ns arbitrary: s) (simp_all add: split_beta Let_def registerMiss_fields)

lemma checkMissed_idle:
  "\<forall>n\<in>set ns. \<not> overdue gt n \<Longrightarrow> checkMissed gt ns s = (ns, s)"
  by (induction ns arbitrary: s) simp_all

lemma checkMissed_count:
  "missCount (snd (checkMissed gt ns s)) = missCount s + int (length (filter (overdue gt) ns))"
  by (induction ns arbitrary: s) (simp_all add: split_beta Let_def registerMiss_def)

lemma not_overdue_sweepNote: "\<not> overdue gt (sweepNote gt n)"
  by (simp add: sweepNote_def overdue_def noteY_def)

lemma gameLoop_running:
  "\<not> isPaused s \<Longrightarrow> \<not> isGameOver s \<Longrightarrow>
   gameLoop deltaTime s =
     (snd (checkMissed (gameTime s) (notes_cell s) s))
       \<lparr> notes_cell := map (sweepNote (gameTime s)) (notes_cell s),
         gameTime := gameTime s + deltaTime \<rparr>"
  by (simp add: gameLoop_def split_beta checkMissed_notes)

lemma gameLoop_not_running: "isPaused s \<or> isGameOver s \<Longrightarrow> gameLoop deltaTime s = s"
  by (simp add: gameLoop_def)

lemma gameLoop_idle:
  assumes "\<forall>n\<in>set (notes_cell s). \<not> overdue (gameTime s) n"
  shows "gameLoop 0 s = s"
  using assms by (simp add: gameLoop_def checkMissed_idle)

lemma gameLoop_zero_twice: "gameLoop 0 (gameLoop 0 s) = gameLoop 0 s"
proof (cases "isPaused s \<or> isGameOver s")
  case True
  then show ?thesis by (simp add: gameLoop_not_running)
next
  case False
  let ?t = "gameLoop 0 s"
  have t: "?t = (snd (checkMissed (gameTime s) (notes_cell s) s))
       \<lparr> notes_cell := map (sweepNote (gameTime s)) (notes_cell s), gameTime := gameTime s + 0 \<rparr>"
    using False by (simp add: gameLoop_running)
  have "gameTime ?t = gameTime s" by (simp add: t)
  moreover have "notes_cell ?t = map (sweepNote (gameTime s)) (notes_cell s)" by (simp add: t)
  ultimately have "\<forall>n\<in>set (notes_cell ?t). \<not> overdue (gameTime ?t) n"
    by (simp add: not_overdue_sweepNote)
  then show ?thesis by (rule gameLoop_idle)
qed

lemma gameLoop_zero_funpow: "(gameLoop 0 ^^ Suc k) s = gameLoop 0 s"
  by (induction k) (simp_all add: gameLoop_zero_twice)

lemma gameLoop_idle_funpow:
  "\<forall>n\<in>set (notes_cell s). \<not> overdue (gameTime s) n \<Longrightarrow> (gameLoop 0 ^^ k) s = s"
  by (induction k) (simp_all add: gameLoop_idle)

lemma gameLoop_keeps:
  "score (gameLoop deltaTime s) = score s \<and> maxCombo (gameLoop deltaTime s) = maxCombo s
   \<and> isPaused (gameLoop deltaTime s) = isPaused s"
  by (cases "isPaused s \<or> isGameOver s")
     (simp_all add: gameLoop_not_running gameLoop_running checkMissed_fields)

text \<open>The frame in closed form, for evaluating games on concrete charts.\<close>

lemma checkMissed_counters:
  "snd (checkMissed gt ns s) = (registerMiss ^^ length (filter (overdue gt) ns)) s"
proof (induction ns arbitrary: s)
  case Nil
  then show ?case by simp
next
  case (Cons n ns)
  then show ?case by (simp add: split_beta funpow_swap1)
qed

lemma gameLoop_eval:
  "gameLoop deltaTime s =
     (if isPaused s \<or> isGameOver s then s
      else ((registerMiss ^^ length (filter (overdue (gameTime s)) (notes_cell s))) s)
             \<lparr> notes_cell := map (sweepNote (gameTime s)) (notes_cell s),
               gameTime := gameTime s + deltaTime \<rparr>)"
  by (simp add: gameLoop_def split_beta checkMissed_notes checkMissed_counters checkMissed_fields)

lemmas eval_defs =
  generateNotes_def totalBeats_def beatLoop_unfold notesPerBeat_def beatBlock_1
  run_def step_def keyboardEffect_def subscribe_def gameLoop_eval sweepNote_def handleKeyDown_def
  handleKeyUp_def keyMap_def hitNote_def currentNotes_def markHit_def initial_def newNote_def
  overdue_def noteY_def distance_def registerMiss_def LANES_def NOTE_SPEED_def
  MISS_THRESHOLD_def HIT_ZONE_Y_def Let_def

subsection \<open>Frames of length zero\<close>

text \<open>
  Claim C9, as stated, fails: a frame of length zero is not always without effect. The
  sweep of a frame reads the clock from before that frame's time step. On the chart of an
  Easy song at 120 beats per minute (notes at 0, 500, 1000, ... ms) a frame of 6000 ms
  carries the first two notes past the miss line and leaves them pending; the next frame,
  here of length zero, marks both missed and counts two misses.
\<close>

theorem gameLoop_zero_counterexample:
  "missCount (gameLoop 6000
       (initial (generateNotes \<lparr> bpm = 120, difficulty = Easy \<rparr> (\<lambda>i. 0)))) = 0
   \<and> map missed (take 3 (notes_cell (gameLoop 6000
       (initial (generateNotes \<lparr> bpm = 120, difficulty = Easy \<rparr> (\<lambda>i. 0))))))
     = [False, False, False]
   \<and> missCount (gameLoop 0 (gameLoop 6000
       (initial (generateNotes \<lparr> bpm = 120, difficulty = Easy \<rparr> (\<lambda>i. 0))))) = 2
   \<and> map missed (take 3 (notes_cell (gameLoop 0 (gameLoop 6000
       (initial (generateNotes \<lparr> bpm = 120, difficulty = Easy \<rparr> (\<lambda>i. 0)))))))
     = [True, True, False]"
  by (simp add: eval_defs)

text \<open>
  Claim C9, amended. In every session state a frame of length zero leaves score, maximal
  combo and clock unchanged and does to the notes exactly what the sweep at the current
  clock does; where no note is overdue at the current clock, any number of such frames
  leaves the whole state unchanged; and in every state, any positive number of such
  frames has the effect of one.
\<close>

theorem gameLoop_zero_idempotent:
  "(gameLoop 0 ^^ Suc k) s = gameLoop 0 s
   \<and> ((\<forall>n\<in>set (notes_cell s). \<not> overdue (gameTime s) n) \<longrightarrow> (gameLoop 0 ^^ k) s = s)
   \<and> score (gameLoop 0 s) = score s
   \<and> maxCombo (gameLoop 0 s) = maxCombo s
   \<and> gameTime (gameLoop 0 s) = gameTime s
   \<and> notes_cell (gameLoop 0 s)
        = (if isPaused s \<or> isGameOver s then notes_cell s
           else map (sweepNote (gameTime s)) (notes_cell s))"
proof -
  have "gameTime (gameLoop 0 s) = gameTime s"
    by (cases "isPaused s \<or> isGameOver s")
       (simp_all add: gameLoop_not_running gameLoop_running)
  moreover have "notes_cell (gameLoop 0 s)
        = (if isPaused s \<or> isGameOver s then notes_cell s
           else map (sweepNote (gameTime s)) (notes_cell s))"
    by (cases "isPaused s \<or> isGameOver s")
       (simp_all add: gameLoop_not_running gameLoop_running)
  ultimately show ?thesis
    using gameLoop_zero_funpow [of k s] gameLoop_idle_funpow [of s k] gameLoop_keeps [of 0 s]
    by simp
qed

theorem gameLoop_zero_idempotent_witness:
  "notes_cell (initial [newNote 500 0 1 0 0]) = [newNote 500 0 1 0 0]
   \<and> \<not> overdue (gameTime (initial [newNote 500 0 1 0 0])) (newNote 500 0 1 0 0)
   \<and> (gameLoop 0 ^^ 3) (initial [newNote 500 0 1 0 0]) = initial [newNote 500 0 1 0 0]
   \<and> (gameLoop 0 ^^ 3) (gameLoop 6000 (initial [newNote 500 0 1 0 0]))
       = gameLoop 0 (gameLoop 6000 (initial [newNote 500 0 1 0 0]))"
proof -
  have ns: "notes_cell (initial [newNote 500 0 1 0 0]) = [newNote 500 0 1 0 0]"
    by (simp add: initial_def)
  have h: "\<not> overdue (gameTime (initial [newNote 500 0 1 0 0])) (newNote 500 0 1 0 0)"
    by (simp add: initial_def newNote_def overdue_def noteY_def NOTE_SPEED_def
        MISS_THRESHOLD_def)
  have three: "Suc 2 = 3" by simp
  show ?thesis
    using ns h gameLoop_zero_idempotent [of 3 "initial [newNote 500 0 1 0 0]"]
      gameLoop_zero_idempotent [of 2 "gameLoop 6000 (initial [newNote 500 0 1 0 0])"]
    unfolding three by simp
qed

subsection \<open>Which note a press selects\<close>

text \<open>
  The search of a press is right for the render it reads: among the notes of the lane
  that are neither hit nor missed in that render, ordered by scheduled time, it finds a
  note within 100 of the hit line at that render's clock, as close as any other and the
  earliest of the closest; the note of the same identifier is then marked in the cells.
\<close>

lemma hitNote_search:
  assumes "sorted (map timing (seenNotes r))"
  shows "case findClosest (seenTime r) (currentNotes r laneNo) None of
           None \<Rightarrow>
             (\<forall>n\<in>set (currentNotes r laneNo). \<not> distance (seenTime r) n < 100)
             \<and> notes_cell (hitNote r s laneNo) = notes_cell s
         | Some (c, d) \<Rightarrow>
             c \<in> set (seenNotes r) \<and> lane c = laneNo \<and> \<not> hit c \<and> \<not> missed c
             \<and> d = distance (seenTime r) c \<and> d < 100
             \<and> (\<forall>n\<in>set (currentNotes r laneNo).
                   d \<le> distance (seenTime r) n
                   \<and> (distance (seenTime r) n = d \<longrightarrow> timing c \<le> timing n))
             \<and> notes_cell (hitNote r s laneNo) = markHit (ident c) (notes_cell s)"
proof (cases "findClosest (seenTime r) (currentNotes r laneNo) None")
  case None
  then have "\<forall>n\<in>set (currentNotes r laneNo). \<not> distance (seenTime r) n < 100"
    by (simp add: findClosest_None)
  moreover have "notes_cell (hitNote r s laneNo) = notes_cell s"
    using None by (simp add: hitNote_def)
  ultimately show ?thesis using None by simp
next
  case (Some p)
  obtain c d where p: "p = (c, d)" by (cases p)
  have fb: "firstBest (seenTime r) (currentNotes r laneNo) c d"
    using Some p findClosest_start by simp
  have srt: "sorted (map timing (currentNotes r laneNo))"
    using assms by (rule sorted_currentNotes)
  have "c \<in> set (seenNotes r) \<and> lane c = laneNo \<and> \<not> hit c \<and> \<not> missed c"
    using firstBest_mem [OF fb] by (simp add: currentNotes_iff)
  moreover have "d = distance (seenTime r) c \<and> d < 100"
    using fb by (auto simp: firstBest_def)
  moreover have "\<forall>n\<in>set (currentNotes r laneNo).
                   d \<le> distance (seenTime r) n
                   \<and> (distance (seenTime r) n = d \<longrightarrow> timing c \<le> timing n)"
    using firstBest_least [OF fb] firstBest_tie [OF fb srt] by blast
  moreover have "notes_cell (hitNote r s laneNo) = markHit (ident c) (notes_cell s)"
    using Some p by (simp add: hitNote_def Let_def)
  ultimately show ?thesis using Some p by simp
qed

text \<open>
  Claim C1 says that the press selects by the distance at the clock of the session state.
  The subscribed handler reads the clock and the notes of the render of the last key
  event instead. On the chart of an Easy song at 120 beats per minute with all lane draws
  0 (notes in lane 0 at 0, 500, 1000, ... ms), a key of lane 3 goes down and up at
  4400 ms, and 2000 ms later the key of lane 0 is pressed. At that clock, 6400, the note
  at 2000 ms is on the hit line and the note at 0 ms is 250 away from it, outside the
  window; both are neither hit nor missed. The press marks the note at 0 ms as hit.
\<close>

theorem press_selects_by_old_clock:
  "gameTime (run \<lparr> bpm = 120, difficulty = Easy \<rparr>
       (initial (generateNotes \<lparr> bpm = 120, difficulty = Easy \<rparr> (\<lambda>i. 0)))
       [Frame 4400, KeyDown ''k'', KeyUp ''k'', Frame 2000]) = 6400
   \<and> map (\<lambda>n. (lane n, timing n, hit n, missed n, distance 6400 n))
       (take 5 (notes_cell (run \<lparr> bpm = 120, difficulty = Easy \<rparr>
         (initial (generateNotes \<lparr> bpm = 120, difficulty = Easy \<rparr> (\<lambda>i. 0)))
         [Frame 4400, KeyDown ''k'', KeyUp ''k'', Frame 2000])))
     = [(0, 0, False, False, 250), (0, 500, False, False, 375 / 2), (0, 1000, False, False, 125),
        (0, 1500, False, False, 125 / 2), (0, 2000, False, False, 0)]
   \<and> map hit (take 5 (notes_cell (run \<lparr> bpm = 120, difficulty = Easy \<rparr>
         (initial (generateNotes \<lparr> bpm = 120, difficulty = Easy \<rparr> (\<lambda>i. 0)))
         [Frame 4400, KeyDown ''k'', KeyUp ''k'', Frame 2000, KeyDown ''d''])))
     = [True, False, False, False, False]"
  by (simp add: eval_defs)

subsection \<open>The effect of a press\<close>

text \<open>
  What a press whose search finds a note does to the cells: it marks the note of that
  identifier, grades by the distance the search computed, and updates the counters.
\<close>

lemma hitNote_found:
  assumes "findClosest (seenTime r) (currentNotes r laneNo) None = Some (c, d)"
  shows "c \<in> set (seenNotes r) \<and> d = distance (seenTime r) c
         \<and> notes_cell (hitNote r s laneNo) = markHit (ident c) (notes_cell s)
         \<and> showHitEffect (hitNote r s laneNo)
              = Some (laneNo, if distance (seenTime r) c < 30 then Perfect else Good)
         \<and> score (hitNote r s laneNo)
              = score s + (if distance (seenTime r) c < 30 then 300 else 100)
         \<and> combo (hitNote r s laneNo) = combo s + 1
         \<and> maxCombo (hitNote r s laneNo) = max (maxCombo s) (combo s + 1)
         \<and> missCount (hitNote r s laneNo) = 0"
proof -
  have fb: "firstBest (seenTime r) (currentNotes r laneNo) c d"
    using assms by (rule findClosest_start)
  have mem: "c \<in> set (seenNotes r)"
    using firstBest_mem [OF fb] by (simp add: currentNotes_iff)
  have d: "d = distance (seenTime r) c"
    using fb by (auto simp: firstBest_def)
  show ?thesis
    using assms mem d by (simp add: hitNote_def Let_def)
qed

text \<open>
  Claim C2 says that the accuracy class and the points follow the distance of the found
  note to the hit line. They follow the distance at the clock that the subscribed handler
  reads. On the same chart a key of lane 3 goes down and up at 4160 ms, and 240 ms later,
  at 4400 ms, the key of lane 0 is pressed: the note at 0 ms is exactly on the hit line
  (distance 0, below 30), and the press grades it Good and adds 100 points, its distance
  at 4160 ms having been 30.
\<close>

theorem press_grades_by_old_clock:
  "distance 4160 (newNote 500 0 1 0 0) = 30
   \<and> gameTime (run \<lparr> bpm = 120, difficulty = Easy \<rparr>
       (initial (generateNotes \<lparr> bpm = 120, difficulty = Easy \<rparr> (\<lambda>i. 0)))
       [Frame 4160, KeyDown ''k'', KeyUp ''k'', Frame 240, KeyDown ''d'']) = 4400
   \<and> map (\<lambda>n. (lane n, timing n, hit n, missed n, distance 4400 n))
       (take 2 (notes_cell (run \<lparr> bpm = 120, difficulty = Easy \<rparr>
         (initial (generateNotes \<lparr> bpm = 120, difficulty = Easy \<rparr> (\<lambda>i. 0)))
         [Frame 4160, KeyDown ''k'', KeyUp ''k'', Frame 240, KeyDown ''d''])))
     = [(0, 0, True, False, 0), (0, 500, False, False, 125 / 2)]
   \<and> showHitEffect (run \<lparr> bpm = 120, difficulty = Easy \<rparr>
       (initial (generateNotes \<lparr> bpm = 120, difficulty = Easy \<rparr> (\<lambda>i. 0)))
       [Frame 4160, KeyDown ''k'', KeyUp ''k'', Frame 240, KeyDown ''d'']) = Some (0, Good)
   \<and> score (run \<lparr> bpm = 120, difficulty = Easy \<rparr>
       (initial (generateNotes \<lparr> bpm = 120, difficulty = Easy \<rparr> (\<lambda>i. 0)))
       [Frame 4160, KeyDown ''k'', KeyUp ''k'', Frame 240, KeyDown ''d'']) = 100"
  by (simp add: eval_defs)

text \<open>When the search of a press finds nothing, only the transient effect changes.\<close>

lemma hitNote_nothing_found:
  assumes "\<forall>n\<in>set (seenNotes r).
             lane n = laneNo \<and> \<not> hit n \<and> \<not> missed n \<longrightarrow> \<not> distance (seenTime r) n < 100"
  shows "hitNote r s laneNo = s\<lparr> showHitEffect := Some (laneNo, Miss) \<rparr>"
proof -
  have "findClosest (seenTime r) (currentNotes r laneNo) None = None"
    using assms by (simp add: findClosest_None currentNotes_iff)
  then show ?thesis by (simp add: hitNote_def)
qed

text \<open>
  Claim C4 says that a press on a lane without a pending note within 100 of the hit line
  changes no counter and no note. The subscribed handler searches the notes of the render
  of the last key event. On the chart of an Easy song at 120 beats per minute whose first
  note is in lane 0 and whose other notes are in lane 3, a key of lane 3 goes down and up
  at 4400 ms; frames of 1000 and 16 ms follow, and the sweep marks the note at 0 ms
  missed. Now lane 0 has no note that is neither hit nor missed. The press on lane 0
  reports Perfect, adds 300 points, resets the miss counter and marks the missed note as
  hit.
\<close>

theorem press_without_target_scores:
  "map (\<lambda>n. (lane n, timing n, hit n, missed n))
       (filter (\<lambda>n. lane n = 0) (notes_cell (run \<lparr> bpm = 120, difficulty = Easy \<rparr>
         (initial (generateNotes \<lparr> bpm = 120, difficulty = Easy \<rparr> (\<lambda>i. if i = 0 then 0 else 3 / 4)))
         [Frame 4400, KeyDown ''k'', KeyUp ''k'', Frame 1000, Frame 16])))
     = [(0, 0, False, True)]
   \<and> (\<lambda>s. (score s, missCount s))
       (run \<lparr> bpm = 120, difficulty = Easy \<rparr>
         (initial (generateNotes \<lparr> bpm = 120, difficulty = Easy \<rparr> (\<lambda>i. if i = 0 then 0 else 3 / 4)))
         [Frame 4400, KeyDown ''k'', KeyUp ''k'', Frame 1000, Frame 16])
     = (0, 1)
   \<and> (\<lambda>s. (score s, missCount s, showHitEffect s))
       (run \<lparr> bpm = 120, difficulty = Easy \<rparr>
         (initial (generateNotes \<lparr> bpm = 120, difficulty = Easy \<rparr> (\<lambda>i. if i = 0 then 0 else 3 / 4)))
         [Frame 4400, KeyDown ''k'', KeyUp ''k'', Frame 1000, Frame 16, KeyDown ''d''])
     = (300, 0, Some (0, Perfect))
   \<and> map (\<lambda>n. (lane n, timing n, hit n, missed n))
       (filter (\<lambda>n. lane n = 0) (notes_cell (run \<lparr> bpm = 120, difficulty = Easy \<rparr>
         (initial (generateNotes \<lparr> bpm = 120, difficulty = Easy \<rparr> (\<lambda>i. if i = 0 then 0 else 3 / 4)))
         [Frame 4400, KeyDown ''k'', KeyUp ''k'', Frame 1000, Frame 16, KeyDown ''d''])))
     = [(0, 0, True, True)]"
  by (simp add: eval_defs)

subsection \<open>Operations outside the running state\<close>

lemma handleKeyDown_gameOver: "isGameOver s \<Longrightarrow> handleKeyDown s k = s"
  by (simp add: handleKeyDown_def)

text \<open>
  Claim C5 holds for frames (\<open>gameLoop_not_running\<close>) and for key presses after the game
  is over (\<open>handleKeyDown_gameOver\<close>), but not for key presses while the game is paused:
  \<open>handleKeyDown\<close> tests only the game-over flag before it calls \<open>hitNote\<close>. Here the
  game on the chart of an Easy song at 120 beats per minute (all lane draws 0) runs for
  4400 ms, so that the first note is on the hit line; the key of lane 3 goes down, which
  subscribes the handlers of that render; the game is paused; and the key of lane 0 is
  pressed.
\<close>

theorem press_while_paused_scores:
  "(\<lambda>s. (isPaused s, score s))
       (run \<lparr> bpm = 120, difficulty = Easy \<rparr>
         (initial (generateNotes \<lparr> bpm = 120, difficulty = Easy \<rparr> (\<lambda>i. 0)))
         [Frame 4400, KeyDown ''k'', PauseButton])
     = (True, 0)
   \<and> (\<lambda>s. (isPaused s, score s))
       (run \<lparr> bpm = 120, difficulty = Easy \<rparr>
         (initial (generateNotes \<lparr> bpm = 120, difficulty = Easy \<rparr> (\<lambda>i. 0)))
         [Frame 4400, KeyDown ''k'', PauseButton, KeyDown ''d''])
     = (True, 300)
   \<and> map hit (take 2 (notes_cell (run \<lparr> bpm = 120, difficulty = Easy \<rparr>
         (initial (generateNotes \<lparr> bpm = 120, difficulty = Easy \<rparr> (\<lambda>i. 0)))
         [Frame 4400, KeyDown ''k'', PauseButton, KeyDown ''d''])))
     = [True, False]"
  by (simp add: eval_defs)

subsection \<open>The life of a note\<close>

text \<open>
  The sweep of a frame treats every note at most once: a note stays as it is, or it was
  neither hit nor missed and is now marked missed; and by \<open>checkMissed_count\<close> the sweep
  counts exactly the notes that it marks.
\<close>

lemma noteStep_refl: "noteStep a a"
  by (simp add: noteStep_def)

lemma noteStep_sweepNote: "noteStep n (sweepNote gt n)"
  by (simp add: noteStep_def sweepNote_def overdue_def)

lemma noteSteps_gameLoop:
  "list_all2 noteStep (notes_cell s) (notes_cell (gameLoop deltaTime s))"
  by (cases "isPaused s \<or> isGameOver s")
     (simp_all add: gameLoop_not_running gameLoop_running list_all2_map2 list_all2_same
        noteStep_refl noteStep_sweepNote)

text \<open>
  Claim C7 says that a note changes its status at most once, never ends both hit and
  missed, and is not selected by a press once it is missed. The subscribed handler searches
  the notes of the render of the last key event and sets the hit flag in the current
  cells. On the chart of an Easy song at 120 beats per minute with all lane draws 0, a key
  of lane 3 goes down and up at 4400 ms; frames of 1000 and 16 ms follow, and the sweep
  marks the note at 0 ms missed. The press on lane 0 that comes next selects that note and
  marks it hit, so that it is both hit and missed, and it sets the miss counter back to 0.
\<close>

theorem press_hits_missed_note:
  "map (\<lambda>n. (timing n, hit n, missed n))
       (take 2 (notes_cell (run \<lparr> bpm = 120, difficulty = Easy \<rparr>
         (initial (generateNotes \<lparr> bpm = 120, difficulty = Easy \<rparr> (\<lambda>i. 0)))
         [Frame 4400, KeyDown ''k'', KeyUp ''k'', Frame 1000, Frame 16])))
     = [(0, False, True), (500, False, False)]
   \<and> map (\<lambda>n. (timing n, hit n, missed n))
       (take 2 (notes_cell (run \<lparr> bpm = 120, difficulty = Easy \<rparr>
         (initial (generateNotes \<lparr> bpm = 120, difficulty = Easy \<rparr> (\<lambda>i. 0)))
         [Frame 4400, KeyDown ''k'', KeyUp ''k'', Frame 1000, Frame 16, KeyDown ''d''])))
     = [(0, True, True), (500, False, False)]
   \<and> missCount (run \<lparr> bpm = 120, difficulty = Easy \<rparr>
         (initial (generateNotes \<lparr> bpm = 120, difficulty = Easy \<rparr> (\<lambda>i. 0)))
         [Frame 4400, KeyDown ''k'', KeyUp ''k'', Frame 1000, Frame 16, KeyDown ''d'']) = 0"
  by (simp add: eval_defs)

subsection \<open>The two acceptance windows\<close>

lemma inWindow_distance: "inWindow gt (timing n) \<longleftrightarrow> distance gt n < 100"
  by (simp add: inWindow_def distance_def noteY_def)

lemma inWindow_iff: "inWindow gt t \<longleftrightarrow> 3600 < gt - t \<and> gt - t < 5200"
  by (auto simp: inWindow_def NOTE_SPEED_def HIT_ZONE_Y_def abs_less_iff)

lemma inWindow_v0_iff: "inWindow_v0 gt t \<longleftrightarrow> - 375 < gt - t \<and> gt - t < - 175"
  by (auto simp: inWindow_v0_def NOTE_SPEED_def HIT_ZONE_Y_def abs_less_iff)

lemma windows_disjoint: "\<not> (inWindow gt t \<and> inWindow_v0 gt t)"
  by (auto simp: inWindow_iff inWindow_v0_iff)

text \<open>
  Claim C10 says that the window of the plain variant accepts a note exactly when the
  window of the full variant does. At clock 4400 a note scheduled at 0 is on the hit line
  (position 550): the full variant, with a handler subscribed at that clock, accepts and
  hits it, the plain variant rejects it and leaves it unhit. By \<open>windows_disjoint\<close> the two windows never accept the same note.
\<close>

theorem windows_disagree:
  "noteY 4400 (newNote 500 0 1 0 0) = HIT_ZONE_Y
   \<and> inWindow 4400 0 \<and> \<not> inWindow_v0 4400 0
   \<and> map hit (notes_cell (hitNote \<lparr> seenNotes = [newNote 500 0 1 0 0], seenTime = 4400 \<rparr>
                               ((initial [newNote 500 0 1 0 0])\<lparr> gameTime := 4400 \<rparr>) 0))
        = [True]
   \<and> map hit_v0 (notes_v0 (hitNote_v0
        \<lparr> notes_v0 = [\<lparr> ident_v0 = (0, 0), lane_v0 = 0, timing_v0 = 0, hit_v0 = False \<rparr>],
          score_v0 = 0, combo_v0 = 0, isPaused_v0 = False, gameTime_v0 = 4400,
          activeKeys_v0 = {} \<rparr> 0))
        = [False]"
  by (simp add: inWindow_def inWindow_v0_def hitNote_def hitNote_v0_def currentNotes_def
      currentNotes_v0_def markHit_def initial_def newNote_def noteY_def distance_def LANES_def
      NOTE_SPEED_def HIT_ZONE_Y_def Let_def)

subsection \<open>Game over and the miss counter\<close>

lemma registerMiss_over:
  "isGameOver (registerMiss s) \<longleftrightarrow> isGameOver s \<or> 10 \<le> missCount s + 1"
  by (simp add: registerMiss_def Let_def)

lemma registerMiss_inv:
  "(isGameOver s \<longleftrightarrow> 10 \<le> missCount s) \<Longrightarrow>
   (isGameOver (registerMiss s) \<longleftrightarrow> 10 \<le> missCount (registerMiss s))"
  by (auto simp: registerMiss_def Let_def)

lemma checkMissed_inv:
  "(isGameOver s \<longleftrightarrow> 10 \<le> missCount s) \<Longrightarrow>
   (isGameOver (snd (checkMissed gt ns s)) \<longleftrightarrow> 10 \<le> missCount (snd (checkMissed gt ns s)))"
proof (induction ns arbitrary: s)
  case Nil
  then show ?case by simp
next
  case (Cons n ns)
  show ?case
  proof (cases "overdue gt n")
    case True
    then show ?thesis
      using Cons.IH [OF registerMiss_inv [OF Cons.prems]] by (simp add: split_beta)
  next
    case False
    then show ?thesis
      using Cons.IH [OF Cons.prems] by (simp add: split_beta)
  qed
qed

lemma gameLoop_inv:
  assumes "isGameOver s \<longleftrightarrow> 10 \<le> missCount s"
  shows "isGameOver (gameLoop deltaTime s) \<longleftrightarrow> 10 \<le> missCount (gameLoop deltaTime s)"
proof (cases "isPaused s \<or> isGameOver s")
  case True
  then show ?thesis using assms by (simp add: gameLoop_not_running)
next
  case False
  then show ?thesis
    using checkMissed_inv [OF assms, of "gameTime s" "notes_cell s"]
    by (simp add: gameLoop_running)
qed

lemma hitNote_over: "isGameOver (hitNote r s laneNo) = isGameOver s"
  by (simp add: hitNote_def Let_def split: option.splits)

lemma hitNote_missCount:
  "missCount (hitNote r s laneNo) = 0 \<or> missCount (hitNote r s laneNo) = missCount s"
  by (simp add: hitNote_def Let_def split: option.splits)

lemma handleKeyDown_inv:
  assumes "isGameOver s \<longleftrightarrow> 10 \<le> missCount s"
  shows "isGameOver (handleKeyDown s k) \<longleftrightarrow> 10 \<le> missCount (handleKeyDown s k)"
proof (cases "isGameOver s")
  case True
  then show ?thesis using assms by (simp add: handleKeyDown_gameOver)
next
  case False
  then have small: "missCount s < 10" using assms by simp
  have "\<not> isGameOver (handleKeyDown s k) \<and> missCount (handleKeyDown s k) < 10"
    using False small
      hitNote_missCount [of "listener s"
        "s\<lparr> activeKeys := insert (the (keyMap k)) (activeKeys s) \<rparr>" "the (keyMap k)"]
    by (auto simp: handleKeyDown_def Let_def hitNote_over split: option.splits)
  then show ?thesis by simp
qed

lemma dispatch_inv:
  "(isGameOver s \<longleftrightarrow> 10 \<le> missCount s) \<Longrightarrow>
   (isGameOver (dispatch sg s e) \<longleftrightarrow> 10 \<le> missCount (dispatch sg s e))"
  by (cases e)
     (simp_all add: gameLoop_inv handleKeyDown_inv handleKeyUp_def restartGame_def
        split: option.splits)

lemma keyboardEffect_fields:
  "isGameOver (keyboardEffect s e s') = isGameOver s'"
  "missCount (keyboardEffect s e s') = missCount s'"
  by (simp_all add: keyboardEffect_def subscribe_def)

lemma step_inv:
  "(isGameOver s \<longleftrightarrow> 10 \<le> missCount s) \<Longrightarrow>
   (isGameOver (step sg s e) \<longleftrightarrow> 10 \<le> missCount (step sg s e))"
  using dispatch_inv [of s sg e] by (simp add: step_def keyboardEffect_fields)

lemma dispatch_stays_over:
  "\<not> isRestart e \<Longrightarrow> isGameOver s \<Longrightarrow> isGameOver (dispatch sg s e)"
  by (cases e)
     (simp_all add: gameLoop_not_running handleKeyDown_gameOver handleKeyUp_def
        split: option.splits)

lemma step_stays_over:
  "\<not> isRestart e \<Longrightarrow> isGameOver s \<Longrightarrow> isGameOver (step sg s e)"
  by (simp add: step_def keyboardEffect_fields dispatch_stays_over)

lemma last_sessionHistory:
  "hist \<noteq> [] \<Longrightarrow> last (sessionHistory sg hist es) = run sg (last hist) es"
  by (induction es arbitrary: hist) (simp_all add: run_def Let_def)

lemma sessionHistory_nonempty: "hist \<noteq> [] \<Longrightarrow> sessionHistory sg hist es \<noteq> []"
  by (induction es arbitrary: hist) (simp_all add: Let_def)

lemma sessionHistory_inv:
  assumes "hist \<noteq> []"
    and "\<forall>s\<in>set hist. isGameOver s \<longleftrightarrow> 10 \<le> missCount s"
    and "(\<exists>s\<in>set hist. isGameOver s) \<longrightarrow> isGameOver (last hist)"
  shows "(\<forall>s\<in>set (sessionHistory sg hist es). isGameOver s \<longleftrightarrow> 10 \<le> missCount s)
         \<and> ((\<exists>s\<in>set (sessionHistory sg hist es). isGameOver s)
              \<longrightarrow> isGameOver (last (sessionHistory sg hist es)))"
  using assms
proof (induction es arbitrary: hist)
  case Nil
  then show ?case by simp
next
  case (Cons e es)
  let ?s' = "step sg (last hist) e"
  let ?h = "if isRestart e then [?s'] else hist @ [?s']"
  have inv': "isGameOver ?s' \<longleftrightarrow> 10 \<le> missCount ?s'"
    using Cons.prems(1,2) by (intro step_inv) simp
  have 1: "?h \<noteq> []" by simp
  have 2: "\<forall>s\<in>set ?h. isGameOver s \<longleftrightarrow> 10 \<le> missCount s"
    using Cons.prems(2) inv' by auto
  have 3: "(\<exists>s\<in>set ?h. isGameOver s) \<longrightarrow> isGameOver (last ?h)"
    using Cons.prems(3) step_stays_over [of e "last hist" sg] by auto
  show ?case
    using Cons.IH [OF 1 2 3] by (simp add: Let_def)
qed

text \<open>
  Claim C3. Take any session started from the mounted state and driven by any events, and
  look at the states since the last restart. The game is over now exactly if the miss
  counter was at 10 or above in one of these states; in each of these states the
  game-over flag is set exactly if the miss counter is at 10 or above, so the flag goes
  up in the very step in which the counter first gets there; and a single registered
  miss sets the flag exactly if it was set before or the counter gets to 10 by this miss.
\<close>

theorem gameOver_iff_threshold:
  "(isGameOver (run sg (initial ns) es)
      \<longleftrightarrow> (\<exists>s\<in>set (sessionHistory sg [initial ns] es). 10 \<le> missCount s))
   \<and> (\<forall>s\<in>set (sessionHistory sg [initial ns] es). isGameOver s \<longleftrightarrow> 10 \<le> missCount s)
   \<and> last (sessionHistory sg [initial ns] es) = run sg (initial ns) es
   \<and> (isGameOver (registerMiss t) \<longleftrightarrow> isGameOver t \<or> 10 \<le> missCount t + 1)"
proof -
  let ?H = "sessionHistory sg [initial ns] es"
  have start: "\<forall>s\<in>set [initial ns]. isGameOver s \<longleftrightarrow> 10 \<le> missCount s"
    by (simp add: initial_def)
  have start': "(\<exists>s\<in>set [initial ns]. isGameOver s) \<longrightarrow> isGameOver (last [initial ns])"
    by simp
  have inv: "\<forall>s\<in>set ?H. isGameOver s \<longleftrightarrow> 10 \<le> missCount s"
    and over: "(\<exists>s\<in>set ?H. isGameOver s) \<longrightarrow> isGameOver (last ?H)"
    using sessionHistory_inv [OF _ start start', of sg es] by simp_all
  have lst: "last ?H = run sg (initial ns) es"
    using last_sessionHistory [of "[initial ns]" sg es] by simp
  have ne: "?H \<noteq> []"
    by (rule sessionHistory_nonempty) simp
  have "isGameOver (last ?H) \<longleftrightarrow> (\<exists>s\<in>set ?H. 10 \<le> missCount s)"
  proof
    assume "isGameOver (last ?H)"
    moreover have "last ?H \<in> set ?H" using ne by simp
    ultimately show "\<exists>s\<in>set ?H. 10 \<le> missCount s" using inv by blast
  next
    assume "\<exists>s\<in>set ?H. 10 \<le> missCount s"
    then have "\<exists>s\<in>set ?H. isGameOver s" using inv by blast
    then show "isGameOver (last ?H)" using over by blast
  qed
  then show ?thesis
    using inv lst registerMiss_over [of t] by simp
qed

theorem gameOver_iff_threshold_witness:
  "missCount (run \<lparr> bpm = 120, difficulty = Easy \<rparr>
      (initial (map (\<lambda>i. newNote 500 i 1 0 0) [0, 1, 2, 3, 4, 5, 6, 7, 8, 9]))
      [Frame 10000]) = 0
   \<and> \<not> isGameOver (run \<lparr> bpm = 120, difficulty = Easy \<rparr>
      (initial (map (\<lambda>i. newNote 500 i 1 0 0) [0, 1, 2, 3, 4, 5, 6, 7, 8, 9]))
      [Frame 10000])
   \<and> missCount (run \<lparr> bpm = 120, difficulty = Easy \<rparr>
      (initial (map (\<lambda>i. newNote 500 i 1 0 0) [0, 1, 2, 3, 4, 5, 6, 7, 8, 9]))
      [Frame 10000, Frame 16]) = 10
   \<and> isGameOver (run \<lparr> bpm = 120, difficulty = Easy \<rparr>
      (initial (map (\<lambda>i. newNote 500 i 1 0 0) [0, 1, 2, 3, 4, 5, 6, 7, 8, 9]))
      [Frame 10000, Frame 16])"
proof -
  let ?sg = "\<lparr> bpm = 120, difficulty = Easy \<rparr>"
  let ?ns = "map (\<lambda>i. newNote 500 i 1 0 0) [0, 1, 2, 3, 4, 5, 6, 7, 8, 9]"
  have a: "missCount (run ?sg (initial ?ns) [Frame 10000]) = 0"
    by (simp add: run_def step_def keyboardEffect_def subscribe_def gameLoop_def initial_def
        newNote_def overdue_def noteY_def NOTE_SPEED_def MISS_THRESHOLD_def Let_def)
  have b: "missCount (run ?sg (initial ?ns) [Frame 10000, Frame 16]) = 10"
    by (simp add: run_def step_def keyboardEffect_def subscribe_def gameLoop_def initial_def
        newNote_def overdue_def noteY_def registerMiss_def NOTE_SPEED_def MISS_THRESHOLD_def
        Let_def)
  have iff: "isGameOver (run sg (initial ns) es) \<longleftrightarrow> 10 \<le> missCount (run sg (initial ns) es)"
    for sg ns es
  proof -
    have "last (sessionHistory sg [initial ns] es) \<in> set (sessionHistory sg [initial ns] es)"
      by (simp add: sessionHistory_nonempty)
    then show ?thesis
      using gameOver_iff_threshold [of sg ns es] by auto
  qed
  show ?thesis
    unfolding iff a b by simp
qed

end
